theory Spec2Isabelle
  imports Complex_Main "HOL-Library.Word" "HOL-Library.Sublist"
begin

section \<open>JavaScript values reaching generatePassword\<close>

text \<open>
  The generator is called with one dynamically typed argument. A JavaScript number is an
  IEEE double: a finite double is a rational, and the three non-finite values are kept
  apart, since \<^verbatim>\<open>Number.isInteger\<close> rejects them.
\<close>

datatype jsnum = NaN | PosInfinity | NegInfinity | Finite rat

datatype jsval =
    JUndefined
  | JNull
  | JBool bool
  | JNum jsnum
  | JStr string
  | JBigInt int
  | JSymbol
  | JFunction
  | JObject "(string \<times> jsval) list"

text \<open>The \<^verbatim>\<open>typeof\<close> operator.\<close>

fun typeof :: "jsval \<Rightarrow> string" where
  "typeof JUndefined = ''undefined''"
| "typeof JNull = ''object''"
| "typeof (JBool b) = ''boolean''"
| "typeof (JNum n) = ''number''"
| "typeof (JStr s) = ''string''"
| "typeof (JBigInt k) = ''bigint''"
| "typeof JSymbol = ''symbol''"
| "typeof JFunction = ''function''"
| "typeof (JObject ps) = ''object''"

text \<open>
  Reading a property: an object is the list of the properties a read can see (an array is
  an object with a \<^verbatim>\<open>length\<close> property); a property that is not there reads as
  \<^verbatim>\<open>undefined\<close>.
\<close>

fun getProp :: "jsval \<Rightarrow> string \<Rightarrow> jsval" where
  "getProp (JObject ps) k = (case map_of ps k of None \<Rightarrow> JUndefined | Some v \<Rightarrow> v)"
| "getProp v k = JUndefined"

text \<open>A destructuring default \<^verbatim>\<open>{ x = d }\<close> applies exactly when the property reads as undefined.\<close>

definition withDefault :: "jsval \<Rightarrow> jsval \<Rightarrow> jsval" where
  "withDefault v d = (if v = JUndefined then d else v)"

text \<open>\<^verbatim>\<open>Number.isInteger\<close>: a finite number without fractional part.\<close>

fun isInteger :: "jsval \<Rightarrow> bool" where
  "isInteger (JNum (Finite q)) = (of_int \<lfloor>q\<rfloor> = q)"
| "isInteger v = False"

text \<open>
  The integer held by a value that passed \<^verbatim>\<open>Number.isInteger\<close>: the comparisons
  \<^verbatim>\<open>length < 1\<close> and \<^verbatim>\<open>length > 1000\<close>, the product \<^verbatim>\<open>length * 10\<close> and the loop bound
  read the length only after that check.
\<close>

fun intOf :: "jsval \<Rightarrow> int" where
  "intOf (JNum (Finite q)) = \<lfloor>q\<rfloor>"
| "intOf v = 0"

fun boolOf :: "jsval \<Rightarrow> bool" where
  "boolOf (JBool b) = b"
| "boolOf v = False"

section \<open>The runtime environment\<close>

text \<open>
  One call \<^verbatim>\<open>crypto.getRandomValues(new Uint32Array(1))\<close> either throws (with a message)
  or fills the array with one unsigned 32-bit value. The environment says whether the global
  \<^verbatim>\<open>crypto\<close> is defined, whether its \<^verbatim>\<open>getRandomValues\<close> is truthy, and what the
  k-th call of the random source does.
\<close>

datatype draw = Throws string | Returns "32 word"

record env =
  crypto_defined :: bool
  getRandomValues_present :: bool
  getRandomValues :: "nat \<Rightarrow> draw"

section \<open>Errors\<close>

text \<open>
  One constructor for each \<^verbatim>\<open>throw\<close> of generatePassword, in the order of the source:
  \<^item> \<open>OptionsNotObject\<close>: "Options must be an object";
  \<^item> \<open>LengthNotInteger\<close>: "Length must be an integer";
  \<^item> \<open>LengthTooSmall\<close>: "Password length must be at least 1 character";
  \<^item> \<open>LengthTooLarge\<close>: "Password length cannot exceed 1000 characters for security reasons";
  \<^item> \<open>SymbolsNotBoolean\<close>: "Symbols option must be a boolean";
  \<^item> \<open>ReadableNotBoolean\<close>: "Readable option must be a boolean";
  \<^item> \<open>CryptoUnavailable\<close>: "Cryptographically secure random number generator is not available ...";
  \<^item> \<open>NoCharacters\<close>: "No characters available for password generation after applying filters";
  \<^item> \<open>CharsetTooSmall\<close>: "Character set is too small for secure password generation";
  \<^item> \<open>MaxAttemptsExceeded\<close>: "Failed to generate password after maximum attempts ...";
  \<^item> \<open>RandomFailure msg\<close>: "Failed to generate secure random number: msg";
  \<^item> \<open>LengthMismatch got wanted\<close>: "Generated password length (got) does not match requested length (wanted)";
  \<^item> \<open>InvalidCharacters\<close>: "Generated password contains invalid characters";
  \<^item> \<open>ConfusingCharacters\<close>: "Generated password contains confusing characters despite readable mode being enabled".
\<close>

datatype error =
    OptionsNotObject
  | LengthNotInteger
  | LengthTooSmall
  | LengthTooLarge
  | SymbolsNotBoolean
  | ReadableNotBoolean
  | CryptoUnavailable
  | NoCharacters
  | CharsetTooSmall
  | MaxAttemptsExceeded
  | RandomFailure string
  | LengthMismatch nat nat
  | InvalidCharacters
  | ConfusingCharacters

text \<open>The kinds of the error taxonomy, and the kind of each thrown error.\<close>

datatype error_kind =
    InvalidArgument
  | OutOfRange
  | EnvironmentUnavailable
  | EmptyCharset
  | InsufficientEntropy
  | RandomSourceFailure
  | GenerationExhausted
  | InternalInvariantViolation

fun kind :: "error \<Rightarrow> error_kind" where
  "kind OptionsNotObject = InvalidArgument"
| "kind LengthNotInteger = InvalidArgument"
| "kind LengthTooSmall = OutOfRange"
| "kind LengthTooLarge = OutOfRange"
| "kind SymbolsNotBoolean = InvalidArgument"
| "kind ReadableNotBoolean = InvalidArgument"
| "kind CryptoUnavailable = EnvironmentUnavailable"
| "kind NoCharacters = EmptyCharset"
| "kind CharsetTooSmall = InsufficientEntropy"
| "kind MaxAttemptsExceeded = GenerationExhausted"
| "kind (RandomFailure m) = RandomSourceFailure"
| "kind (LengthMismatch got wanted) = InternalInvariantViolation"
| "kind InvalidCharacters = InternalInvariantViolation"
| "kind ConfusingCharacters = InternalInvariantViolation"

section \<open>generatePassword\<close>

subsection \<open>Validation of the options and of the environment\<close>

text \<open>
  The checks of the source from the top of the function to the crypto check, in its order.
  On success the validated length, symbols and readable are handed on.
\<close>

definition validate :: "env \<Rightarrow> jsval \<Rightarrow> error + (nat \<times> bool \<times> bool)" where
  "validate e arg =
    (let options = (if arg = JUndefined then JObject [] else arg) in
     if options = JNull \<or> typeof options \<noteq> ''object'' then Inl OptionsNotObject
     else
       let len = withDefault (getProp options ''length'') (JNum (Finite 12));
           symbols = withDefault (getProp options ''symbols'') (JBool True);
           readable = withDefault (getProp options ''readable'') (JBool False)
       in
         if typeof len \<noteq> ''number'' \<or> \<not> isInteger len then Inl LengthNotInteger
         else if intOf len < 1 then Inl LengthTooSmall
         else if intOf len > 1000 then Inl LengthTooLarge
         else if typeof symbols \<noteq> ''boolean'' then Inl SymbolsNotBoolean
         else if typeof readable \<noteq> ''boolean'' then Inl ReadableNotBoolean
         else if \<not> crypto_defined e \<or> \<not> getRandomValues_present e then Inl CryptoUnavailable
         else Inr (nat (intOf len), boolOf symbols, boolOf readable))"

subsection \<open>Charset construction\<close>

definition letters :: string where
  "letters = ''abcdefghijklmnopqrstuvwxyzABCDEFGHIJKLMNOPQRSTUVWXYZ''"

definition nums :: string where
  "nums = ''0123456789''"

definition syms :: string where
  "syms = ''!@#$%^&*()_+{}[]<>?,.''"

text \<open>The characters of the class \<^verbatim>\<open>[O0Il1|]\<close>.\<close>

definition confusingChars :: string where
  "confusingChars = ''O0Il1|''"

text \<open>
  \<^verbatim>\<open>s.replace(/[cls]/g, rep)\<close>: scanning left to right, every character of the class is
  replaced by \<open>rep\<close>, every other character is kept.
\<close>

fun replace_class :: "string \<Rightarrow> string \<Rightarrow> string \<Rightarrow> string" where
  "replace_class cls rep [] = []"
| "replace_class cls rep (c # cs) =
     (if c \<in> set cls then rep else [c]) @ replace_class cls rep cs"

definition build_charset :: "bool \<Rightarrow> bool \<Rightarrow> string" where
  "build_charset symbols readable =
    (let charset = letters @ nums;
         charset = (if symbols then charset @ syms else charset);
         charset = (if readable then replace_class confusingChars [] charset else charset)
     in charset)"

subsection \<open>Sampling\<close>

text \<open>\<^verbatim>\<open>charAt\<close> gives the empty string out of range.\<close>

definition charAt :: "string \<Rightarrow> nat \<Rightarrow> string" where
  "charAt s i = (if i < length s then [s ! i] else [])"

text \<open>
  The \<^verbatim>\<open>for\<close> loop of the source with its variables \<open>i\<close>, \<open>attempts\<close> and
  \<open>password\<close>; \<open>calls\<close> counts the calls of the random source made so far. The loop
  ends with the password or the error thrown, the number of calls made and the value of
  \<open>attempts\<close>.
\<close>

function sample_loop ::
  "env \<Rightarrow> string \<Rightarrow> nat \<Rightarrow> nat \<Rightarrow> nat \<Rightarrow> nat \<Rightarrow> string \<Rightarrow> nat
     \<Rightarrow> (error + string) \<times> nat \<times> nat" where
  "sample_loop e charset len maxAttempts i attempts password calls =
    (if i < len then
       (if Suc attempts > maxAttempts then (Inl MaxAttemptsExceeded, calls, Suc attempts)
        else
          (case getRandomValues e calls of
             Throws msg \<Rightarrow> (Inl (RandomFailure msg), Suc calls, Suc attempts)
           | Returns w \<Rightarrow>
               sample_loop e charset len maxAttempts (Suc i) (Suc attempts)
                 (password @ charAt charset (unat w mod length charset)) (Suc calls)))
     else (Inr password, calls, attempts))"
  by pat_completeness auto
termination
  by (relation "measure (\<lambda>(e, charset, len, maxAttempts, i, attempts, password, calls). len - i)") auto

declare sample_loop.simps [simp del]

subsection \<open>Checks on the generated password\<close>

definition verify_output :: "string \<Rightarrow> nat \<Rightarrow> bool \<Rightarrow> string \<Rightarrow> error + string" where
  "verify_output charset len readable password =
    (if length password \<noteq> len then Inl (LengthMismatch (length password) len)
     else if list_ex (\<lambda>c. c \<notin> set charset) password then Inl InvalidCharacters
     else if readable \<and> list_ex (\<lambda>c. c \<in> set confusingChars) password
       then Inl ConfusingCharacters
     else Inr password)"

subsection \<open>The whole function\<close>

text \<open>
  The result is the password or the error thrown, together with the number of calls of the
  random source the call made.
\<close>

definition generatePassword :: "env \<Rightarrow> jsval \<Rightarrow> (error + string) \<times> nat" where
  "generatePassword e arg =
    (case validate e arg of
       Inl err \<Rightarrow> (Inl err, 0)
     | Inr (len, symbols, readable) \<Rightarrow>
         (let charset = build_charset symbols readable in
          if length charset = 0 then (Inl NoCharacters, 0)
          else if length charset < 10 then (Inl CharsetTooSmall, 0)
          else
            (case sample_loop e charset len (len * 10) 0 0 [] 0 of
               (Inl err, calls, attempts) \<Rightarrow> (Inl err, calls)
             | (Inr password, calls, attempts) \<Rightarrow>
                 (verify_output charset len readable password, calls))))"

section \<open>The command-line front end\<close>

text \<open>\<^verbatim>\<open>calculateCharsetSize\<close> of the CLI, on the two flags it reads.\<close>

definition calculateCharsetSize :: "bool \<Rightarrow> bool \<Rightarrow> int" where
  "calculateCharsetSize symbols readable =
    (let size = 52;
         size = size + 10;
         size = (if symbols then size + 18 else size);
         size = (if readable then size - 6 else size)
     in size)"

section \<open>The validation phase as the specification words it\<close>

text \<open>
  Five checks in a fixed order, each with the kind of failure it reports: the options are a
  structured record (when provided), the length is an integer, the length lies in
  \<open>[1, 1000]\<close>, symbols and readable are boolean (when provided), the secure random source
  is available. The first check that fails decides the failure; a later check is looked at
  only when every earlier one has passed.
\<close>

definition spec_field :: "jsval \<Rightarrow> string \<Rightarrow> jsval \<Rightarrow> jsval" where
  "spec_field arg name dflt =
    (case arg of
       JObject ps \<Rightarrow> (case map_of ps name of None \<Rightarrow> dflt | Some v \<Rightarrow> if v = JUndefined then dflt else v)
     | _ \<Rightarrow> dflt)"

definition spec_is_record :: "jsval \<Rightarrow> bool" where
  "spec_is_record arg = (case arg of JUndefined \<Rightarrow> True | JObject ps \<Rightarrow> True | _ \<Rightarrow> False)"

definition spec_is_integer :: "jsval \<Rightarrow> bool" where
  "spec_is_integer v = (case v of JNum (Finite q) \<Rightarrow> frac q = 0 | _ \<Rightarrow> False)"

definition spec_in_range :: "jsval \<Rightarrow> bool" where
  "spec_in_range v = (case v of JNum (Finite q) \<Rightarrow> 1 \<le> q \<and> q \<le> 1000 | _ \<Rightarrow> False)"

definition spec_is_boolean :: "jsval \<Rightarrow> bool" where
  "spec_is_boolean v = (case v of JBool b \<Rightarrow> True | _ \<Rightarrow> False)"

definition spec_checks :: "env \<Rightarrow> jsval \<Rightarrow> (bool \<times> error_kind) list" where
  "spec_checks e arg =
    [(spec_is_record arg, InvalidArgument),
     (spec_is_integer (spec_field arg ''length'' (JNum (Finite 12))), InvalidArgument),
     (spec_in_range (spec_field arg ''length'' (JNum (Finite 12))), OutOfRange),
     (spec_is_boolean (spec_field arg ''symbols'' (JBool True)) \<and>
      spec_is_boolean (spec_field arg ''readable'' (JBool False)), InvalidArgument),
     (crypto_defined e \<and> getRandomValues_present e, EnvironmentUnavailable)]"

fun first_failure :: "(bool \<times> error_kind) list \<Rightarrow> error_kind option" where
  "first_failure [] = None"
| "first_failure ((ok, k) # cs) = (if ok then first_failure cs else Some k)"

definition spec_validation :: "env \<Rightarrow> jsval \<Rightarrow> error_kind option" where
  "spec_validation e arg = first_failure (spec_checks e arg)"

section \<open>Environments and arguments for concrete runs\<close>

text \<open>A working random source whose k-th call returns \<open>7 * k\<close>.\<close>

definition env_counting :: env where
  "env_counting =
    \<lparr>crypto_defined = True, getRandomValues_present = True,
     getRandomValues = (\<lambda>k. Returns (word_of_nat k * 7))\<rparr>"

text \<open>A random source whose first call throws and whose later calls all return.\<close>

definition env_throw_once :: env where
  "env_throw_once =
    \<lparr>crypto_defined = True, getRandomValues_present = True,
     getRandomValues = (\<lambda>k. if k = 0 then Throws ''boom'' else Returns 7)\<rparr>"

text \<open>A random source whose third call throws.\<close>

definition env_throw_third :: env where
  "env_throw_third =
    \<lparr>crypto_defined = True, getRandomValues_present = True,
     getRandomValues = (\<lambda>k. if k = 2 then Throws ''entropy pool closed'' else Returns (word_of_nat k))\<rparr>"

text \<open>A runtime without the global \<^verbatim>\<open>crypto\<close>.\<close>

definition env_no_crypto :: env where
  "env_no_crypto =
    \<lparr>crypto_defined = False, getRandomValues_present = False,
     getRandomValues = (\<lambda>k. Throws ''crypto is not defined'')\<rparr>"

text \<open>The options \<^verbatim>\<open>{ length: n }\<close> and \<^verbatim>\<open>{ length: n, symbols: s, readable: r }\<close>.\<close>

definition opts_length :: "int \<Rightarrow> jsval" where
  "opts_length n = JObject [(''length'', JNum (Finite (of_int n)))]"

definition opts_all :: "int \<Rightarrow> jsval \<Rightarrow> jsval \<Rightarrow> jsval" where
  "opts_all n s r =
    JObject [(''length'', JNum (Finite (of_int n))), (''symbols'', s), (''readable'', r)]"

section \<open>Auxiliary facts\<close>

lemma replace_class_empty: "replace_class cls [] s = filter (\<lambda>c. c \<notin> set cls) s"
  by (induction s) auto

lemma length_build_charset:
  "length (build_charset s r) = (if s then (if r then 78 else 83) else (if r then 57 else 62))"
  by (simp add: build_charset_def letters_def nums_def syms_def confusingChars_def)

lemma validate_Inr:
  assumes "validate e arg = Inr (len, s, r)"
  shows "1 \<le> len \<and> len \<le> 1000 \<and> crypto_defined e \<and> getRandomValues_present e"
  using assms unfolding validate_def Let_def
  by (auto split: if_splits)

lemma charAt_length: "cs \<noteq> [] \<Longrightarrow> length (charAt cs (n mod length cs)) = 1"
  by (simp add: charAt_def)

lemma charAt_set: "set (charAt cs k) \<subseteq> set cs"
  by (auto simp: charAt_def)

lemma sample_loop_outcome:
  assumes "sample_loop e cs len m i a pw c = (out, c', a')"
    and "a + (len - i) \<le> m" and "cs \<noteq> []"
  shows "a' \<le> a + (len - i) \<and> c' \<le> c + (len - i) \<and> out \<noteq> Inl MaxAttemptsExceeded \<and>
         (i < len \<longrightarrow> c < c') \<and>
         (\<forall>err. out = Inl err \<longrightarrow> (\<exists>msg. err = RandomFailure msg) \<and> c < c') \<and>
         (\<forall>p. out = Inr p \<longrightarrow>
            length p = length pw + (len - i) \<and> set p \<subseteq> set pw \<union> set cs \<and>
            c' = c + (len - i) \<and> a' = a + (len - i))"
  using assms
proof (induction e cs len m i a pw c arbitrary: out c' a' rule: sample_loop.induct)
  case (1 e cs len m i a pw c)
  show ?case
  proof (cases "i < len")
    case False
    with "1.prems"(1) show ?thesis
      by (auto simp: sample_loop.simps [of e cs len m i a pw c])
  next
    case True
    with "1.prems"(2) have budget: "\<not> m < Suc a" by simp
    show ?thesis
    proof (cases "getRandomValues e c")
      case (Throws msg)
      with True budget "1.prems"(1) show ?thesis
        by (auto simp: sample_loop.simps [of e cs len m i a pw c])
    next
      case (Returns w)
      let ?pw = "pw @ charAt cs (unat w mod length cs)"
      from True budget Returns "1.prems"(1)
      have step: "sample_loop e cs len m (Suc i) (Suc a) ?pw (Suc c) = (out, c', a')"
        by (simp add: sample_loop.simps [of e cs len m i a pw c])
      from True "1.prems"(2) have "Suc a + (len - Suc i) \<le> m" by simp
      from "1.IH" [OF True budget Returns step this "1.prems"(3)]
      have IH: "a' \<le> Suc a + (len - Suc i)" "c' \<le> Suc c + (len - Suc i)"
        "out \<noteq> Inl MaxAttemptsExceeded" "Suc i < len \<longrightarrow> Suc c < c'"
        "\<forall>err. out = Inl err \<longrightarrow> (\<exists>msg. err = RandomFailure msg) \<and> Suc c < c'"
        "\<forall>p. out = Inr p \<longrightarrow>
            length p = length ?pw + (len - Suc i) \<and> set p \<subseteq> set ?pw \<union> set cs \<and>
            c' = Suc c + (len - Suc i) \<and> a' = Suc a + (len - Suc i)"
        by blast+
      have le: "Suc c \<le> c'"
      proof (cases "Suc i < len")
        case True with IH(4) show ?thesis by simp
      next
        case False
        with step show ?thesis by (simp add: sample_loop.simps [of e cs len m "Suc i"])
      qed
      from True have eq: "Suc (len - Suc i) = len - i" by simp
      have pw1: "length ?pw = Suc (length pw)"
        using charAt_length [OF "1.prems"(3)] by simp
      have pw2: "set ?pw \<subseteq> set pw \<union> set cs"
        using charAt_set [of cs "unat w mod length cs"] by auto
      have c1: "a' \<le> a + (len - i)" using IH(1) eq by arith
      have c2: "c' \<le> c + (len - i)" using IH(2) eq by arith
      have c4: "c < c'" using le by simp
      have c5: "\<forall>err. out = Inl err \<longrightarrow> (\<exists>msg. err = RandomFailure msg) \<and> c < c'"
        using IH(5) c4 by blast
      have c6: "\<forall>p. out = Inr p \<longrightarrow>
            length p = length pw + (len - i) \<and> set p \<subseteq> set pw \<union> set cs \<and>
            c' = c + (len - i) \<and> a' = a + (len - i)"
      proof (intro allI impI)
        fix p assume "out = Inr p"
        with IH(6) have p: "length p = length ?pw + (len - Suc i)" "set p \<subseteq> set ?pw \<union> set cs"
          "c' = Suc c + (len - Suc i)" "a' = Suc a + (len - Suc i)" by blast+
        from p(2) pw2 have "set p \<subseteq> set pw \<union> set cs" by blast
        moreover from p(1) pw1 eq have "length p = length pw + (len - i)" by arith
        moreover from p(3,4) eq have "c' = c + (len - i)" "a' = a + (len - i)" by arith+
        ultimately show "length p = length pw + (len - i) \<and> set p \<subseteq> set pw \<union> set cs \<and>
            c' = c + (len - i) \<and> a' = a + (len - i)" by blast
      qed
      show ?thesis using c1 c2 IH(3) c4 c5 c6 by blast
    qed
  qed
qed

lemma sample_loop_attempts:
  assumes "sample_loop e cs len m i a pw c = (out, c', a')"
    and "a + (len - i) \<le> m"
  shows "a' \<le> a + (len - i) \<and> out \<noteq> Inl MaxAttemptsExceeded"
  using assms
proof (induction e cs len m i a pw c arbitrary: out c' a' rule: sample_loop.induct)
  case (1 e cs len m i a pw c)
  show ?case
  proof (cases "i < len")
    case False
    with "1.prems"(1) show ?thesis
      by (auto simp: sample_loop.simps [of e cs len m i a pw c])
  next
    case True
    with "1.prems"(2) have budget: "\<not> m < Suc a" by simp
    show ?thesis
    proof (cases "getRandomValues e c")
      case (Throws msg)
      with True budget "1.prems"(1) show ?thesis
        by (auto simp: sample_loop.simps [of e cs len m i a pw c])
    next
      case (Returns w)
      from True budget Returns "1.prems"(1)
      have step: "sample_loop e cs len m (Suc i) (Suc a)
          (pw @ charAt cs (unat w mod length cs)) (Suc c) = (out, c', a')"
        by (simp add: sample_loop.simps [of e cs len m i a pw c])
      from True "1.prems"(2) have "Suc a + (len - Suc i) \<le> m" by simp
      from "1.IH" [OF True budget Returns step this]
      have "a' \<le> Suc a + (len - Suc i)" "out \<noteq> Inl MaxAttemptsExceeded" by blast+
      moreover from True have "Suc a + (len - Suc i) = a + (len - i)" by arith
      ultimately show ?thesis by (simp del: add_Suc)
    qed
  qed
qed

lemma sample_loop_throws:
  assumes "k < len - i"
    and "\<forall>j<k. \<exists>w. getRandomValues e (c + j) = Returns w"
    and "getRandomValues e (c + k) = Throws msg"
    and "a + (len - i) \<le> m"
  shows "sample_loop e cs len m i a pw c = (Inl (RandomFailure msg), Suc (c + k), Suc (a + k))"
  using assms
proof (induction k arbitrary: i a pw c)
  case 0
  then show ?case by (simp add: sample_loop.simps [of e cs len m i a pw c])
next
  case (Suc k)
  from Suc.prems(2) obtain w where w: "getRandomValues e c = Returns w" by force
  have later: "\<forall>j<k. \<exists>w. getRandomValues e (Suc c + j) = Returns w"
    using Suc.prems(2) by (metis Suc_less_eq add_Suc_shift)
  have "sample_loop e cs len m (Suc i) (Suc a) (pw @ charAt cs (unat w mod length cs)) (Suc c)
        = (Inl (RandomFailure msg), Suc (Suc c + k), Suc (Suc a + k))"
    using Suc.prems by (intro Suc.IH later) auto
  moreover from Suc.prems(1,4) have "i < len" "\<not> m < Suc a" by arith+
  ultimately show ?case using w
    by (simp add: sample_loop.simps [of e cs len m i a pw c])
qed

lemma sample_loop_returns:
  assumes "\<forall>j<len - i. \<exists>w. getRandomValues e (c + j) = Returns w"
    and "a + (len - i) \<le> m"
  shows "\<exists>p. sample_loop e cs len m i a pw c = (Inr p, c + (len - i), a + (len - i))"
  using assms
proof (induction "len - i" arbitrary: i a pw c)
  case 0
  then show ?case by (simp add: sample_loop.simps [of e cs len m i a pw c])
next
  case (Suc n)
  from Suc.hyps(2) have lt: "i < len" and n: "n = len - Suc i" by auto
  from Suc.prems(1) lt obtain w where w: "getRandomValues e c = Returns w"
    by (metis add.right_neutral zero_less_diff)
  have later: "\<forall>j<len - Suc i. \<exists>w. getRandomValues e (Suc c + j) = Returns w"
    using Suc.prems(1) lt by (metis Suc_diff_Suc Suc_less_eq add_Suc_shift)
  from lt Suc.prems(2) have "Suc a + (len - Suc i) \<le> m" by simp
  from Suc.hyps(1) [OF n later this]
  obtain p where "sample_loop e cs len m (Suc i) (Suc a) (pw @ charAt cs (unat w mod length cs)) (Suc c)
        = (Inr p, Suc c + (len - Suc i), Suc a + (len - Suc i))" by blast
  moreover from lt Suc.prems(2) have "\<not> m < Suc a" by arith
  moreover from lt have "Suc c + (len - Suc i) = c + (len - i)"
    "Suc a + (len - Suc i) = a + (len - i)" by arith+
  ultimately show ?case using lt w
    by (simp add: sample_loop.simps [of e cs len m i a pw c])
qed


lemma getProp_options:
  "getProp (if arg = JUndefined then JObject [] else arg) k = getProp arg k"
  by simp

lemma validate_Inr_fields:
  assumes "validate e arg = Inr (len, s, r)"
  shows "len = nat (intOf (withDefault (getProp arg ''length'') (JNum (Finite 12))))"
    and "s = boolOf (withDefault (getProp arg ''symbols'') (JBool True))"
    and "r = boolOf (withDefault (getProp arg ''readable'') (JBool False))"
  using assms unfolding validate_def Let_def getProp_options
  by (auto split: if_splits)

lemma validate_not_exhausted: "validate e arg \<noteq> Inl MaxAttemptsExceeded"
  unfolding validate_def Let_def by (simp split: if_splits)

lemma confusing_removed: "set (build_charset s True) \<inter> set confusingChars = {}"
  by (auto simp: build_charset_def Let_def replace_class_empty)

lemma build_charset_nonempty: "build_charset s r \<noteq> []"
  using length_build_charset [of s r] by (auto split: if_splits)

lemma build_charset_large: "10 \<le> length (build_charset s r)"
  by (simp add: length_build_charset)

lemma verify_output_Inr:
  "verify_output cs len r p = Inr q \<Longrightarrow>
     q = p \<and> length p = len \<and> set p \<subseteq> set cs \<and> (r \<longrightarrow> set p \<inter> set confusingChars = {})"
  by (auto simp: verify_output_def list_ex_iff split: if_splits)

lemma verify_output_passes:
  assumes "length p = len" and "set p \<subseteq> set cs" and "r \<longrightarrow> set cs \<inter> set confusingChars = {}"
  shows "verify_output cs len r p = Inr p"
  using assms by (auto simp: verify_output_def list_ex_iff)

lemma generatePassword_invalid:
  "validate e arg = Inl err \<Longrightarrow> generatePassword e arg = (Inl err, 0)"
  by (simp add: generatePassword_def)

lemma generatePassword_valid:
  assumes "validate e arg = Inr (len, s, r)"
  shows "generatePassword e arg =
    (case sample_loop e (build_charset s r) len (len * 10) 0 0 [] 0 of
       (Inl err, calls, attempts) \<Rightarrow> (Inl err, calls)
     | (Inr password, calls, attempts) \<Rightarrow>
         (verify_output (build_charset s r) len r password, calls))"
proof -
  have "length (build_charset s r) \<noteq> 0" "\<not> length (build_charset s r) < 10"
    using build_charset_large [of s r] by auto
  with assms show ?thesis by (simp add: generatePassword_def Let_def)
qed

lemma sample_loop_verified:
  assumes "sample_loop e (build_charset s r) len (len * 10) 0 0 [] 0 = (Inr p, c, a)"
  shows "verify_output (build_charset s r) len r p = Inr p \<and> c = len \<and> a = len"
proof -
  from sample_loop_outcome [OF assms _ build_charset_nonempty]
  have "length p = len" "set p \<subseteq> set (build_charset s r)" "c = len" "a = len"
    by auto
  moreover have "r \<longrightarrow> set (build_charset s r) \<inter> set confusingChars = {}"
    using confusing_removed by simp
  ultimately show ?thesis using verify_output_passes by simp
qed

lemma generatePassword_outcomes:
  assumes "validate e arg = Inr (len, s, r)"
  shows "(\<exists>pw. generatePassword e arg = (Inr pw, len) \<and> length pw = len \<and>
            set pw \<subseteq> set (build_charset s r)) \<or>
         (\<exists>msg k. k < len \<and> generatePassword e arg = (Inl (RandomFailure msg), Suc k))"
proof -
  obtain out c a where loop: "sample_loop e (build_charset s r) len (len * 10) 0 0 [] 0 = (out, c, a)"
    by (cases "sample_loop e (build_charset s r) len (len * 10) 0 0 [] 0") auto
  show ?thesis
  proof (cases out)
    case (Inr p)
    with loop sample_loop_verified [of e s r len p c a] sample_loop_outcome [OF loop _ build_charset_nonempty]
    show ?thesis by (auto simp: generatePassword_valid [OF assms])
  next
    case (Inl err)
    from sample_loop_outcome [OF loop _ build_charset_nonempty] Inl
    obtain msg where "err = RandomFailure msg" "0 < c" "c \<le> len" by auto
    with loop Inl have "generatePassword e arg = (Inl (RandomFailure msg), Suc (c - 1))" "c - 1 < len"
      by (auto simp: generatePassword_valid [OF assms])
    then show ?thesis by blast
  qed
qed


lemma generatePassword_Inr:
  assumes "generatePassword e arg = (Inr pw, n)"
  obtains len s r where "validate e arg = Inr (len, s, r)"
    and "length pw = len" and "n = len" and "set pw \<subseteq> set (build_charset s r)"
proof (cases "validate e arg")
  case (Inl err)
  with assms show ?thesis by (simp add: generatePassword_invalid)
next
  case (Inr v)
  obtain len s r where v: "v = (len, s, r)" by (cases v) auto
  from generatePassword_outcomes [OF Inr [unfolded v]] assms
  have "length pw = len" "n = len" "set pw \<subseteq> set (build_charset s r)" by auto
  with Inr v that show ?thesis by blast
qed

lemma validate_length_small:
  assumes "getProp arg ''length'' = JNum (Finite (of_int L))" and "L < 1"
  shows "validate e arg = Inl LengthTooSmall"
proof -
  from assms(1) obtain ps where "arg = JObject ps" by (cases arg) auto
  with assms show ?thesis
    unfolding validate_def Let_def getProp_options by (simp add: withDefault_def)
qed

lemma validate_length_large:
  assumes "getProp arg ''length'' = JNum (Finite (of_int L))" and "1000 < L"
  shows "validate e arg = Inl LengthTooLarge"
proof -
  from assms(1) obtain ps where "arg = JObject ps" by (cases arg) auto
  with assms show ?thesis
    unfolding validate_def Let_def getProp_options by (simp add: withDefault_def)
qed

lemma validate_passes:
  assumes "getProp arg ''length'' = JUndefined \<and> L = 12 \<or>
           getProp arg ''length'' = JNum (Finite (of_int L))"
    and "1 \<le> L" and "L \<le> 1000"
    and "arg = JUndefined \<or> (\<exists>ps. arg = JObject ps)"
    and "typeof (withDefault (getProp arg ''symbols'') (JBool True)) = ''boolean''"
    and "typeof (withDefault (getProp arg ''readable'') (JBool False)) = ''boolean''"
    and "crypto_defined e" and "getRandomValues_present e"
  shows "validate e arg =
     Inr (nat L, boolOf (withDefault (getProp arg ''symbols'') (JBool True)),
                 boolOf (withDefault (getProp arg ''readable'') (JBool False)))"
proof -
  from assms(4) have obj: "\<not> ((if arg = JUndefined then JObject [] else arg) = JNull \<or>
      typeof (if arg = JUndefined then JObject [] else arg) \<noteq> ''object'')"
    by auto
  from assms(1) have len: "withDefault (getProp arg ''length'') (JNum (Finite 12)) = JNum (Finite (of_int L))"
    by (auto simp: withDefault_def)
  show ?thesis
    unfolding validate_def Let_def getProp_options len
    using obj assms(2,3,5-) by simp
qed

lemma generatePassword_succeeds:
  assumes "validate e arg = Inr (len, s, r)"
    and "\<forall>j<len. \<exists>w. getRandomValues e j = Returns w"
  shows "\<exists>pw. generatePassword e arg = (Inr pw, len) \<and> length pw = len"
proof -
  have "\<exists>p. sample_loop e (build_charset s r) len (len * 10) 0 0 [] 0
          = (Inr p, 0 + (len - 0), 0 + (len - 0))"
    using assms(2) by (intro sample_loop_returns) auto
  then obtain p where loop: "sample_loop e (build_charset s r) len (len * 10) 0 0 [] 0 = (Inr p, len, len)"
    by auto
  from sample_loop_verified [OF loop] have ok: "verify_output (build_charset s r) len r p = Inr p"
    by simp
  from verify_output_Inr [OF ok] have "length p = len" by simp
  with loop ok show ?thesis
    by (simp add: generatePassword_valid [OF assms(1)])
qed

lemma spec_field_eq: "spec_field arg name d = withDefault (getProp arg name) d"
  by (cases arg) (auto simp: spec_field_def withDefault_def split: option.splits)

lemma spec_is_record_eq:
  "spec_is_record arg \<longleftrightarrow>
     \<not> ((if arg = JUndefined then JObject [] else arg) = JNull \<or>
        typeof (if arg = JUndefined then JObject [] else arg) \<noteq> ''object'')"
  by (cases arg) (simp_all add: spec_is_record_def)

lemma spec_is_integer_eq: "spec_is_integer v \<longleftrightarrow> typeof v = ''number'' \<and> isInteger v"
proof (cases v)
  case (JNum n)
  then show ?thesis
    by (cases n) (auto simp: spec_is_integer_def frac_def)
qed (simp_all add: spec_is_integer_def)

lemma spec_in_range_eq:
  assumes "isInteger v"
  shows "spec_in_range v \<longleftrightarrow> \<not> intOf v < 1 \<and> \<not> intOf v > 1000"
proof -
  from assms obtain q where v: "v = JNum (Finite q)" and q: "of_int \<lfloor>q\<rfloor> = q"
    by (cases v rule: isInteger.cases) auto
  define k where "k = \<lfloor>q\<rfloor>"
  from q have qk: "q = of_int k" unfolding k_def by (rule sym)
  show ?thesis unfolding v qk by (auto simp: spec_in_range_def)
qed

lemma spec_is_boolean_eq: "spec_is_boolean v \<longleftrightarrow> typeof v = ''boolean''"
  by (cases v) (simp_all add: spec_is_boolean_def)

lemma spec_validation_validate:
  "(case spec_validation e arg of
      Some k \<Rightarrow> \<exists>err. validate e arg = Inl err \<and> kind err = k
    | None \<Rightarrow> \<exists>v. validate e arg = Inr v)"
  unfolding spec_validation_def spec_checks_def validate_def Let_def getProp_options
  by (simp add: spec_field_eq spec_is_record_eq spec_is_integer_eq spec_is_boolean_eq spec_in_range_eq)

lemma validate_length_type:
  assumes "getProp arg ''length'' \<noteq> JUndefined"
    and "typeof (getProp arg ''length'') \<noteq> ''number'' \<or> \<not> isInteger (getProp arg ''length'')"
  shows "validate e arg = Inl LengthNotInteger"
proof -
  from assms(1) obtain ps where "arg = JObject ps" by (cases arg) auto
  with assms show ?thesis
    unfolding validate_def Let_def getProp_options by (simp add: withDefault_def)
qed

lemma validate_flag_type:
  assumes len: "getProp arg ''length'' = JUndefined \<or>
      (\<exists>L. getProp arg ''length'' = JNum (Finite (of_int L)) \<and> 1 \<le> L \<and> L \<le> 1000)"
    and bad: "getProp arg ''symbols'' \<noteq> JUndefined \<and> typeof (getProp arg ''symbols'') \<noteq> ''boolean'' \<or>
      getProp arg ''readable'' \<noteq> JUndefined \<and> typeof (getProp arg ''readable'') \<noteq> ''boolean''"
  shows "validate e arg = Inl SymbolsNotBoolean \<or> validate e arg = Inl ReadableNotBoolean"
proof -
  from bad obtain ps where "arg = JObject ps" by (cases arg) auto
  then have obj: "\<not> ((if arg = JUndefined then JObject [] else arg) = JNull \<or>
      typeof (if arg = JUndefined then JObject [] else arg) \<noteq> ''object'')"
    by simp
  from len obtain L where L: "1 \<le> L" "L \<le> 1000"
    and l: "withDefault (getProp arg ''length'') (JNum (Finite 12)) = JNum (Finite (of_int L))"
    by (auto simp: withDefault_def intro: that [of 12])
  from bad have "typeof (withDefault (getProp arg ''symbols'') (JBool True)) \<noteq> ''boolean'' \<or>
      typeof (withDefault (getProp arg ''readable'') (JBool False)) \<noteq> ''boolean''"
    by (auto simp: withDefault_def)
  with obj L show ?thesis
    unfolding validate_def Let_def getProp_options l by auto
qed

section \<open>The claims\<close>

subsection \<open>C1\<close>

text \<open>
  Claim C1 says that a failed draw is retried inside generatePassword, within a budget of
  \<open>length * 10\<close> draws, and that a failure within the budget does not abort the
  generation. The loop has no retry: the \<^verbatim>\<open>catch\<close> block rethrows. With length 1 (budget
  10) and a source whose first call throws and whose second call would return, the call
  ends after one draw with the wrapped failure.
\<close>

theorem retry_counterexample:
  "getRandomValues env_throw_once 0 = Throws ''boom'' \<and>
   getRandomValues env_throw_once 1 = Returns 7 \<and>
   validate env_throw_once (opts_length 1) = Inr (1, True, False) \<and>
   generatePassword env_throw_once (opts_length 1) = (Inl (RandomFailure ''boom''), 1)"
  by code_simp

text \<open>
  Claim C1 as the code has it: when the draw for a position throws, generation aborts at once
  with the wrapped failure of the random source, after exactly one call of the source for
  each position reached; nothing is retried, although the budget is far from used up.
\<close>

theorem draw_failure_aborts:
  assumes "validate e arg = Inr (len, symbols, readable)"
    and "k < len"
    and "\<forall>j<k. \<exists>w. getRandomValues e j = Returns w"
    and "getRandomValues e k = Throws msg"
  shows "generatePassword e arg = (Inl (RandomFailure msg), Suc k) \<and>
         kind (RandomFailure msg) = RandomSourceFailure \<and> Suc k \<le> len \<and> len < len * 10"
proof -
  from assms(2) have budget: "0 + (len - 0) \<le> len * 10" and k: "k < len - 0" by simp_all
  from assms(3,4) have "\<forall>j<k. \<exists>w. getRandomValues e (0 + j) = Returns w"
    "getRandomValues e (0 + k) = Throws msg" by simp_all
  from sample_loop_throws [OF k this budget]
  have "sample_loop e (build_charset symbols readable) len (len * 10) 0 0 [] 0
          = (Inl (RandomFailure msg), Suc k, Suc k)" by simp
  with assms(2) show ?thesis
    by (simp add: generatePassword_valid [OF assms(1)])
qed

theorem draw_failure_aborts_witness:
  "validate env_throw_third (opts_length 5) = Inr (5, True, False) \<and>
   getRandomValues env_throw_third 0 = Returns 0 \<and>
   getRandomValues env_throw_third 1 = Returns 1 \<and>
   getRandomValues env_throw_third 2 = Throws ''entropy pool closed'' \<and>
   generatePassword env_throw_third (opts_length 5) = (Inl (RandomFailure ''entropy pool closed''), 3)"
proof -
  have v: "validate env_throw_third (opts_length 5) = Inr (5, True, False)"
    by code_simp
  have k: "(2::nat) < 5" by simp
  have before: "\<forall>j<2. \<exists>w. getRandomValues env_throw_third j = Returns w"
    by (simp add: env_throw_third_def)
  have at: "getRandomValues env_throw_third 2 = Throws ''entropy pool closed''"
    by (simp add: env_throw_third_def)
  have first: "getRandomValues env_throw_third 0 = Returns 0"
    "getRandomValues env_throw_third 1 = Returns 1"
    by (simp_all add: env_throw_third_def)
  from draw_failure_aborts [OF v k before at] v first at show ?thesis
    by (simp add: numeral_3_eq_3)
qed

subsection \<open>C2\<close>

text \<open>
  Claim C2 counts 18 symbols and 80 characters with symbols enabled. The symbol string of the
  source has 21 characters, so neither number is right.
\<close>

theorem symbol_set_counterexample:
  "length syms \<noteq> 18 \<and> length (build_charset True False) \<noteq> 62 + 18"
  by (simp add: syms_def length_build_charset)

text \<open>
  Claim C2 as the code has it: with symbols enabled the fixed symbol string
  \<^verbatim>\<open>!@#$%^&*()_+{}[]<>?,.\<close> is appended to the base charset, in this order; it has exactly
  21 characters without duplicates, so the charset with symbols enabled and readable disabled
  has exactly 62 + 21 = 83 characters.
\<close>

theorem symbol_set:
  "syms = [CHR ''!'', CHR ''@'', CHR ''#'', CHR ''$'', CHR ''%'', CHR ''^'', CHR ''&'', CHR ''*'',
           CHR ''('', CHR '')'', CHR ''_'', CHR ''+'', CHR ''{'', CHR ''}'', CHR ''['', CHR '']'',
           CHR ''<'', CHR ''>'', CHR ''?'', CHR '','', CHR ''.''] \<and>
   length syms = 21 \<and> distinct syms \<and>
   build_charset True False = build_charset False False @ syms \<and>
   length (build_charset False False) = 62 \<and>
   length (build_charset True False) = 62 + 21"
proof -
  have "build_charset True False = build_charset False False @ syms"
    by (simp add: build_charset_def)
  moreover have "distinct syms" "length syms = 21"
    by (simp_all add: syms_def)
  ultimately show ?thesis
    by (simp add: length_build_charset) (simp add: syms_def)
qed

subsection \<open>C3\<close>

text \<open>
  Claim C3: a successful call with an integer length between 1 and 1000 returns a string
  whose length is exactly the requested one, whatever symbols and readable are. (A call
  that succeeds has a length in that range, so the range is a conclusion here.)
\<close>

theorem password_length:
  assumes "getProp arg ''length'' = JNum (Finite (of_int L))"
    and "generatePassword e arg = (Inr pw, n)"
  shows "int (length pw) = L \<and> 1 \<le> L \<and> L \<le> 1000"
proof -
  from assms(2) obtain len s r where v: "validate e arg = Inr (len, s, r)" and l: "length pw = len"
    by (rule generatePassword_Inr)
  from validate_Inr_fields(1) [OF v] assms(1) have "len = nat L"
    by (simp add: withDefault_def)
  moreover from validate_Inr [OF v] have "1 \<le> len" "len \<le> 1000" by auto
  ultimately show ?thesis using l by auto
qed

theorem password_length_witness:
  "getProp (opts_all 16 (JBool False) (JBool True)) ''length'' = JNum (Finite (of_int 16)) \<and>
   generatePassword env_counting (opts_all 16 (JBool False) (JBool True)) = (Inr ''ahpwDLT29govCKSZ'', 16) \<and>
   int (length ''ahpwDLT29govCKSZ'') = 16"
proof -
  have h1: "getProp (opts_all 16 (JBool False) (JBool True)) ''length'' = JNum (Finite (of_int 16))"
    by (simp add: opts_all_def)
  have h2: "generatePassword env_counting (opts_all 16 (JBool False) (JBool True)) = (Inr ''ahpwDLT29govCKSZ'', 16)"
    by code_simp
  from password_length [OF h1 h2] h1 h2 show ?thesis by simp
qed

subsection \<open>C4\<close>

text \<open>
  Claim C4: length 0 and length 1001 fail as out of range whatever the rest is. With length
  1 or 1000, symbols and readable boolean or absent, and the random source present in the
  runtime, validation passes and sampling starts: at least one draw is made, the call ends
  with a password of the requested length or with the failure of a draw, and it ends with
  a password when every draw returns.
\<close>

theorem length_boundaries:
  "(getProp arg ''length'' = JNum (Finite 0) \<longrightarrow>
      generatePassword e arg = (Inl LengthTooSmall, 0) \<and> kind LengthTooSmall = OutOfRange) \<and>
   (getProp arg ''length'' = JNum (Finite 1001) \<longrightarrow>
      generatePassword e arg = (Inl LengthTooLarge, 0) \<and> kind LengthTooLarge = OutOfRange) \<and>
   ((L = 1 \<or> L = 1000) \<and> getProp arg ''length'' = JNum (Finite (of_int L)) \<and>
    typeof (withDefault (getProp arg ''symbols'') (JBool True)) = ''boolean'' \<and>
    typeof (withDefault (getProp arg ''readable'') (JBool False)) = ''boolean'' \<and>
    crypto_defined e \<and> getRandomValues_present e \<longrightarrow>
      (\<exists>symbols readable. validate e arg = Inr (nat L, symbols, readable)) \<and>
      0 < snd (generatePassword e arg) \<and>
      ((\<exists>pw. generatePassword e arg = (Inr pw, nat L) \<and> length pw = nat L) \<or>
       (\<exists>msg k. k < nat L \<and> generatePassword e arg = (Inl (RandomFailure msg), Suc k))) \<and>
      ((\<forall>j<nat L. \<exists>w. getRandomValues e j = Returns w) \<longrightarrow>
         (\<exists>pw. generatePassword e arg = (Inr pw, nat L) \<and> length pw = nat L)))"
proof (intro conjI impI)
  assume "getProp arg ''length'' = JNum (Finite 0)"
  then have "getProp arg ''length'' = JNum (Finite (of_int 0))" by simp
  from validate_length_small [OF this]
  show "generatePassword e arg = (Inl LengthTooSmall, 0)"
    by (simp add: generatePassword_invalid)
next
  assume "getProp arg ''length'' = JNum (Finite 1001)"
  then have "getProp arg ''length'' = JNum (Finite (of_int 1001))" by simp
  from validate_length_large [OF this]
  show "generatePassword e arg = (Inl LengthTooLarge, 0)"
    by (simp add: generatePassword_invalid)
next
  assume a: "(L = 1 \<or> L = 1000) \<and> getProp arg ''length'' = JNum (Finite (of_int L)) \<and>
    typeof (withDefault (getProp arg ''symbols'') (JBool True)) = ''boolean'' \<and>
    typeof (withDefault (getProp arg ''readable'') (JBool False)) = ''boolean'' \<and>
    crypto_defined e \<and> getRandomValues_present e"
  then have L: "1 \<le> L" "L \<le> 1000" by auto
  from a obtain ps where "arg = JObject ps" by (cases arg) auto
  with a L obtain s r where v: "validate e arg = Inr (nat L, s, r)"
    using validate_passes [of arg L e] by auto
  then show "\<exists>symbols readable. validate e arg = Inr (nat L, symbols, readable)" by blast
  note out = generatePassword_outcomes [OF v]
  from out show "0 < snd (generatePassword e arg)"
    using L by auto
  from out show "(\<exists>pw. generatePassword e arg = (Inr pw, nat L) \<and> length pw = nat L) \<or>
       (\<exists>msg k. k < nat L \<and> generatePassword e arg = (Inl (RandomFailure msg), Suc k))"
    by blast
  assume all: "\<forall>j<nat L. \<exists>w. getRandomValues e j = Returns w"
  from generatePassword_succeeds [OF v all]
  show "\<exists>pw. generatePassword e arg = (Inr pw, nat L) \<and> length pw = nat L" .
qed simp_all


theorem length_boundaries_witness:
  "generatePassword env_counting (opts_length 0) = (Inl LengthTooSmall, 0) \<and>
   generatePassword env_counting (opts_length 1001) = (Inl LengthTooLarge, 0) \<and>
   generatePassword env_counting (opts_length 1) = (Inr ''a'', 1) \<and>
   (\<exists>pw. generatePassword env_counting (opts_length 1000) = (Inr pw, 1000) \<and> length pw = 1000)"
proof -
  have env: "crypto_defined env_counting" "getRandomValues_present env_counting"
    "\<forall>j<n. \<exists>w. getRandomValues env_counting j = Returns w" for n
    by (simp_all add: env_counting_def)
  have opts: "getProp (opts_length L) ''length'' = JNum (Finite (of_int L))"
    "typeof (withDefault (getProp (opts_length L) ''symbols'') (JBool True)) = ''boolean''"
    "typeof (withDefault (getProp (opts_length L) ''readable'') (JBool False)) = ''boolean''" for L
    by (simp_all add: opts_length_def withDefault_def)
  have "generatePassword env_counting (opts_length 0) = (Inl LengthTooSmall, 0)"
    using length_boundaries [of "opts_length 0" env_counting] opts(1) [of 0] by simp
  moreover have "generatePassword env_counting (opts_length 1001) = (Inl LengthTooLarge, 0)"
    using length_boundaries [of "opts_length 1001" env_counting] opts(1) [of 1001] by simp
  moreover have "\<exists>pw. generatePassword env_counting (opts_length 1000) = (Inr pw, 1000) \<and> length pw = 1000"
    using length_boundaries [of "opts_length 1000" env_counting 1000] opts [of 1000] env by simp
  moreover have "generatePassword env_counting (opts_length 1) = (Inr ''a'', 1)"
    by code_simp
  ultimately show ?thesis by blast
qed

subsection \<open>C5\<close>

text \<open>
  Claim C5: every character of a returned password belongs to the charset built for the
  validated options of the call, and with readable true none of them is one of
  \<^verbatim>\<open>O 0 I l 1 |\<close>.
\<close>

theorem password_characters:
  assumes "generatePassword e arg = (Inr pw, n)"
  shows "(\<exists>len. validate e arg =
            Inr (len, boolOf (withDefault (getProp arg ''symbols'') (JBool True)),
                      boolOf (withDefault (getProp arg ''readable'') (JBool False)))) \<and>
         set pw \<subseteq> set (build_charset (boolOf (withDefault (getProp arg ''symbols'') (JBool True)))
                                     (boolOf (withDefault (getProp arg ''readable'') (JBool False)))) \<and>
         (getProp arg ''readable'' = JBool True \<longrightarrow>
            set pw \<inter> {CHR ''O'', CHR ''0'', CHR ''I'', CHR ''l'', CHR ''1'', CHR ''|''} = {})"
proof -
  from assms obtain len s r where v: "validate e arg = Inr (len, s, r)"
    and sub: "set pw \<subseteq> set (build_charset s r)"
    by (rule generatePassword_Inr)
  note f = validate_Inr_fields(2,3) [OF v]
  have "set pw \<inter> set confusingChars = {}" if "getProp arg ''readable'' = JBool True"
  proof -
    from that f(2) have r: "r = True" by (simp add: withDefault_def)
    from sub [unfolded r] confusing_removed [of s] show ?thesis by blast
  qed
  then have "getProp arg ''readable'' = JBool True \<longrightarrow>
      set pw \<inter> {CHR ''O'', CHR ''0'', CHR ''I'', CHR ''l'', CHR ''1'', CHR ''|''} = {}"
    by (simp add: confusingChars_def)
  with v sub f show ?thesis by blast
qed

theorem password_characters_witness:
  "generatePassword env_counting (opts_all 12 (JBool True) (JBool True)) = (Inr ''ahpwDLT29&}.'', 12) \<and>
   set ''ahpwDLT29&}.'' \<subseteq> set (build_charset True True) \<and>
   set ''ahpwDLT29&}.'' \<inter> {CHR ''O'', CHR ''0'', CHR ''I'', CHR ''l'', CHR ''1'', CHR ''|''} = {}"
proof -
  have h: "generatePassword env_counting (opts_all 12 (JBool True) (JBool True)) = (Inr ''ahpwDLT29&}.'', 12)"
    by code_simp
  have g: "getProp (opts_all 12 (JBool True) (JBool True)) ''readable'' = JBool True"
    "getProp (opts_all 12 (JBool True) (JBool True)) ''symbols'' = JBool True"
    by (simp_all add: opts_all_def)
  have b: "boolOf (withDefault (JBool True) d) = True" for d
    by (simp add: withDefault_def)
  from password_characters [OF h, unfolded g b] h show ?thesis by blast
qed

subsection \<open>C6\<close>

text \<open>
  Claim C6: the base charset is the 62 characters a to z, A to Z, 0 to 9 in this order
  (character codes 97 to 122, 65 to 90, 48 to 57); with readable true the charset is the one
  built without it, with every occurrence of \<^verbatim>\<open>O 0 I l 1 |\<close> removed and the order of
  the others kept.
\<close>

theorem charset_construction:
  "build_charset False False = ''abcdefghijklmnopqrstuvwxyzABCDEFGHIJKLMNOPQRSTUVWXYZ0123456789'' \<and>
   map of_char (build_charset False False) = ([97..<123] @ [65..<91] @ [48..<58] :: nat list) \<and>
   length (build_charset False False) = 62 \<and>
   (\<forall>s. build_charset s True =
      filter (\<lambda>c. c \<notin> {CHR ''O'', CHR ''0'', CHR ''I'', CHR ''l'', CHR ''1'', CHR ''|''}) (build_charset s False)) \<and>
   (\<forall>s. subseq (build_charset s True) (build_charset s False))"
proof -
  have base: "build_charset False False = ''abcdefghijklmnopqrstuvwxyzABCDEFGHIJKLMNOPQRSTUVWXYZ0123456789''"
    by (simp add: build_charset_def letters_def nums_def)
  have codes: "map of_char (build_charset False False) = ([97..<123] @ [65..<91] @ [48..<58] :: nat list)"
    unfolding base by (simp add: upt_rec)
  have len: "length (build_charset False False) = 62"
    by (simp add: length_build_charset)
  have filt: "build_charset s True =
      filter (\<lambda>c. c \<notin> {CHR ''O'', CHR ''0'', CHR ''I'', CHR ''l'', CHR ''1'', CHR ''|''}) (build_charset s False)" for s
    by (simp add: build_charset_def Let_def replace_class_empty confusingChars_def)
  have sub: "subseq (build_charset s True) (build_charset s False)" for s
    unfolding filt by (rule subseq_filter_left)
  from base codes len filt sub show ?thesis by blast
qed

subsection \<open>C7\<close>

text \<open>
  Claim C7: validation runs the five checks in the order of the specification and the first
  failing one decides the error; a call that fails a check has made no call of the random
  source. When no check fails, validation passes, and an error can then only come from a
  draw.
\<close>

theorem validation_order:
  "(case spec_validation e arg of
      Some k \<Rightarrow> \<exists>err. generatePassword e arg = (Inl err, 0) \<and> kind err = k
    | None \<Rightarrow> \<exists>len symbols readable. validate e arg = Inr (len, symbols, readable) \<and>
        (\<forall>err n. generatePassword e arg = (Inl err, n) \<longrightarrow> 0 < n \<and> kind err = RandomSourceFailure))"
proof (cases "spec_validation e arg")
  case (Some k)
  with spec_validation_validate [of e arg] show ?thesis
    by (auto simp: generatePassword_invalid)
next
  case None
  with spec_validation_validate [of e arg] obtain len s r
    where v: "validate e arg = Inr (len, s, r)" by auto
  from generatePassword_outcomes [OF v]
  have "\<forall>err n. generatePassword e arg = (Inl err, n) \<longrightarrow> 0 < n \<and> kind err = RandomSourceFailure"
    by auto
  with v None show ?thesis by simp
qed


theorem validation_order_witness:
  "spec_validation env_no_crypto JNull = Some InvalidArgument \<and>
   (\<exists>err. generatePassword env_no_crypto JNull = (Inl err, 0) \<and> kind err = InvalidArgument) \<and>
   spec_validation env_no_crypto (opts_all 0 (JStr ''yes'') (JBool True)) = Some OutOfRange \<and>
   (\<exists>err. generatePassword env_no_crypto (opts_all 0 (JStr ''yes'') (JBool True)) = (Inl err, 0) \<and>
      kind err = OutOfRange) \<and>
   spec_validation env_no_crypto (opts_all 5 (JStr ''yes'') (JBool True)) = Some InvalidArgument \<and>
   (\<exists>err. generatePassword env_no_crypto (opts_all 5 (JStr ''yes'') (JBool True)) = (Inl err, 0) \<and>
      kind err = InvalidArgument) \<and>
   spec_validation env_no_crypto (opts_length 5) = Some EnvironmentUnavailable \<and>
   (\<exists>err. generatePassword env_no_crypto (opts_length 5) = (Inl err, 0) \<and>
      kind err = EnvironmentUnavailable) \<and>
   spec_validation env_counting (opts_length 5) = None \<and>
   (\<exists>len symbols readable. validate env_counting (opts_length 5) = Inr (len, symbols, readable))"
proof -
  have s1: "spec_validation env_no_crypto JNull = Some InvalidArgument"
    by code_simp
  have s2: "spec_validation env_no_crypto (opts_all 0 (JStr ''yes'') (JBool True)) = Some OutOfRange"
    by code_simp
  have s3: "spec_validation env_no_crypto (opts_all 5 (JStr ''yes'') (JBool True)) = Some InvalidArgument"
    by code_simp
  have s4: "spec_validation env_no_crypto (opts_length 5) = Some EnvironmentUnavailable"
    by code_simp
  have s5: "spec_validation env_counting (opts_length 5) = None"
    by code_simp
  have "\<exists>err. generatePassword env_no_crypto JNull = (Inl err, 0) \<and> kind err = InvalidArgument"
    using validation_order [of env_no_crypto JNull] s1 by simp
  moreover have "\<exists>err. generatePassword env_no_crypto (opts_all 0 (JStr ''yes'') (JBool True)) = (Inl err, 0) \<and>
      kind err = OutOfRange"
    using validation_order [of env_no_crypto "opts_all 0 (JStr ''yes'') (JBool True)"] s2 by simp
  moreover have "\<exists>err. generatePassword env_no_crypto (opts_all 5 (JStr ''yes'') (JBool True)) = (Inl err, 0) \<and>
      kind err = InvalidArgument"
    using validation_order [of env_no_crypto "opts_all 5 (JStr ''yes'') (JBool True)"] s3 by simp
  moreover have "\<exists>err. generatePassword env_no_crypto (opts_length 5) = (Inl err, 0) \<and>
      kind err = EnvironmentUnavailable"
    using validation_order [of env_no_crypto "opts_length 5"] s4 by simp
  moreover have "\<exists>len symbols readable. validate env_counting (opts_length 5) = Inr (len, symbols, readable)"
    using validation_order [of env_counting "opts_length 5"] s5 by auto
  ultimately show ?thesis using s1 s2 s3 s4 s5 by blast
qed

subsection \<open>C8\<close>

text \<open>
  Claim C8, read with the validation order (the first failing check decides): a length that
  is provided and is not an integer number fails as an invalid argument, whatever the rest
  is; once the length has passed its checks (it is absent or an integer between 1 and 1000),
  a symbols or readable that is provided and is not a boolean fails as an invalid argument.
  The range check stands between the two: an integer length outside 1 to 1000 fails as out
  of range whatever symbols and readable are. No draw is made in any of these calls.
\<close>

theorem type_rejection:
  "(getProp arg ''length'' \<noteq> JUndefined \<and>
    (typeof (getProp arg ''length'') \<noteq> ''number'' \<or> \<not> isInteger (getProp arg ''length'')) \<longrightarrow>
      generatePassword e arg = (Inl LengthNotInteger, 0) \<and> kind LengthNotInteger = InvalidArgument) \<and>
   ((getProp arg ''length'' = JUndefined \<or>
      (\<exists>L. getProp arg ''length'' = JNum (Finite (of_int L)) \<and> 1 \<le> L \<and> L \<le> 1000)) \<and>
    (getProp arg ''symbols'' \<noteq> JUndefined \<and> typeof (getProp arg ''symbols'') \<noteq> ''boolean'' \<or>
     getProp arg ''readable'' \<noteq> JUndefined \<and> typeof (getProp arg ''readable'') \<noteq> ''boolean'') \<longrightarrow>
      (\<exists>err. generatePassword e arg = (Inl err, 0) \<and> kind err = InvalidArgument \<and>
         (err = SymbolsNotBoolean \<or> err = ReadableNotBoolean))) \<and>
   ((\<exists>L. getProp arg ''length'' = JNum (Finite (of_int L)) \<and> (L < 1 \<or> 1000 < L)) \<longrightarrow>
      (\<exists>err. generatePassword e arg = (Inl err, 0) \<and> kind err = OutOfRange \<and>
         (err = LengthTooSmall \<or> err = LengthTooLarge)))"
proof (intro conjI impI)
  assume "getProp arg ''length'' \<noteq> JUndefined \<and>
    (typeof (getProp arg ''length'') \<noteq> ''number'' \<or> \<not> isInteger (getProp arg ''length''))"
  then have "validate e arg = Inl LengthNotInteger"
    using validate_length_type by blast
  then show "generatePassword e arg = (Inl LengthNotInteger, 0)"
    by (rule generatePassword_invalid)
next
  assume "(getProp arg ''length'' = JUndefined \<or>
      (\<exists>L. getProp arg ''length'' = JNum (Finite (of_int L)) \<and> 1 \<le> L \<and> L \<le> 1000)) \<and>
    (getProp arg ''symbols'' \<noteq> JUndefined \<and> typeof (getProp arg ''symbols'') \<noteq> ''boolean'' \<or>
     getProp arg ''readable'' \<noteq> JUndefined \<and> typeof (getProp arg ''readable'') \<noteq> ''boolean'')"
  then have "validate e arg = Inl SymbolsNotBoolean \<or> validate e arg = Inl ReadableNotBoolean"
    using validate_flag_type [of arg e] by blast
  then show "\<exists>err. generatePassword e arg = (Inl err, 0) \<and> kind err = InvalidArgument \<and>
         (err = SymbolsNotBoolean \<or> err = ReadableNotBoolean)"
    by (auto simp: generatePassword_invalid)
next
  assume "\<exists>L. getProp arg ''length'' = JNum (Finite (of_int L)) \<and> (L < 1 \<or> 1000 < L)"
  then obtain L where l: "getProp arg ''length'' = JNum (Finite (of_int L))"
    and out: "L < 1 \<or> 1000 < L" by blast
  from out have "validate e arg = Inl LengthTooSmall \<or> validate e arg = Inl LengthTooLarge"
    using validate_length_small [OF l] validate_length_large [OF l] by blast
  then show "\<exists>err. generatePassword e arg = (Inl err, 0) \<and> kind err = OutOfRange \<and>
         (err = LengthTooSmall \<or> err = LengthTooLarge)"
    by (auto simp: generatePassword_invalid)
qed simp

theorem type_rejection_witness:
  "generatePassword env_counting (JObject [(''length'', JStr ''12'')]) = (Inl LengthNotInteger, 0) \<and>
   generatePassword env_counting (JObject [(''length'', JNum (Finite (25 / 2)))]) = (Inl LengthNotInteger, 0) \<and>
   (\<exists>err. generatePassword env_counting (JObject [(''symbols'', JStr ''yes'')]) = (Inl err, 0) \<and>
      kind err = InvalidArgument) \<and>
   (\<exists>err. generatePassword env_counting (opts_all 8 (JBool True) JNull) = (Inl err, 0) \<and>
      kind err = InvalidArgument) \<and>
   (\<exists>err. generatePassword env_counting (opts_all 0 (JStr ''yes'') (JBool False)) = (Inl err, 0) \<and>
      kind err = OutOfRange) \<and>
   (\<exists>err. generatePassword env_counting (opts_all 1001 (JBool True) (JNum (Finite 1))) = (Inl err, 0) \<and>
      kind err = OutOfRange)"
proof -
  have "generatePassword env_counting (JObject [(''length'', JStr ''12'')]) = (Inl LengthNotInteger, 0)"
    using type_rejection [of "JObject [(''length'', JStr ''12'')]" env_counting] by simp
  moreover have frac: "\<not> isInteger (JNum (Finite (25 / 2)))" by code_simp
  have "generatePassword env_counting (JObject [(''length'', JNum (Finite (25 / 2)))]) = (Inl LengthNotInteger, 0)"
    using type_rejection [of "JObject [(''length'', JNum (Finite (25 / 2)))]" env_counting] frac
    by simp
  moreover have "\<exists>err. generatePassword env_counting (JObject [(''symbols'', JStr ''yes'')]) = (Inl err, 0) \<and>
      kind err = InvalidArgument"
    using type_rejection [of "JObject [(''symbols'', JStr ''yes'')]" env_counting] by auto
  moreover have "\<exists>L. getProp (opts_all 8 (JBool True) JNull) ''length'' = JNum (Finite (of_int L)) \<and> 1 \<le> L \<and> L \<le> 1000"
    by (rule exI [of _ 8]) (simp add: opts_all_def)
  then have "\<exists>err. generatePassword env_counting (opts_all 8 (JBool True) JNull) = (Inl err, 0) \<and>
      kind err = InvalidArgument"
    using type_rejection [of "opts_all 8 (JBool True) JNull" env_counting]
    by (auto simp: opts_all_def)
  moreover have "\<exists>L. getProp (opts_all 0 (JStr ''yes'') (JBool False)) ''length'' = JNum (Finite (of_int L)) \<and>
      (L < 1 \<or> 1000 < L)"
    by (rule exI [of _ 0]) (simp add: opts_all_def)
  then have "\<exists>err. generatePassword env_counting (opts_all 0 (JStr ''yes'') (JBool False)) = (Inl err, 0) \<and>
      kind err = OutOfRange"
    using type_rejection [of "opts_all 0 (JStr ''yes'') (JBool False)" env_counting] by blast
  moreover have "\<exists>L. getProp (opts_all 1001 (JBool True) (JNum (Finite 1))) ''length'' = JNum (Finite (of_int L)) \<and>
      (L < 1 \<or> 1000 < L)"
    by (rule exI [of _ 1001]) (simp add: opts_all_def)
  then have "\<exists>err. generatePassword env_counting (opts_all 1001 (JBool True) (JNum (Finite 1))) = (Inl err, 0) \<and>
      kind err = OutOfRange"
    using type_rejection [of "opts_all 1001 (JBool True) (JNum (Finite 1))" env_counting] by blast
  ultimately show ?thesis by blast
qed

subsection \<open>C9\<close>

text \<open>
  Claim C9: the branch that reports the exhausted attempts budget is dead code. The counter
  \<open>attempts\<close> goes up by one for each position, so the loop, started as generatePassword
  starts it, ends with \<open>attempts\<close> at most \<open>length\<close>, never above \<open>length * 10\<close>, and
  without that error; no call of generatePassword ends with it.
\<close>

theorem exhaustion_unreachable:
  "fst (generatePassword e arg) \<noteq> Inl MaxAttemptsExceeded \<and>
   (\<forall>err n. generatePassword e arg = (Inl err, n) \<longrightarrow> kind err \<noteq> GenerationExhausted) \<and>
   (\<forall>charset len out calls attempts.
      sample_loop e charset len (len * 10) 0 0 [] 0 = (out, calls, attempts) \<longrightarrow>
        attempts \<le> len \<and> attempts \<le> len * 10 \<and> out \<noteq> Inl MaxAttemptsExceeded)"
proof -
  have loop: "attempts \<le> len \<and> attempts \<le> len * 10 \<and> out \<noteq> Inl MaxAttemptsExceeded"
    if "sample_loop e charset len (len * 10) 0 0 [] 0 = (out, calls, attempts)"
    for charset len out calls attempts
    using sample_loop_attempts [OF that] by auto
  have res: "err \<noteq> MaxAttemptsExceeded" if "generatePassword e arg = (Inl err, n)" for err n
  proof (cases "validate e arg")
    case (Inl err')
    with that validate_not_exhausted [of e arg] show ?thesis
      by (auto simp: generatePassword_invalid)
  next
    case (Inr v)
    obtain len s r where v: "v = (len, s, r)" by (cases v) auto
    from generatePassword_outcomes [OF Inr [unfolded v]] that show ?thesis by auto
  qed
  have kinds: "kind err \<noteq> GenerationExhausted" if "err \<noteq> MaxAttemptsExceeded" for err
    using that by (cases err) auto
  have "fst (generatePassword e arg) \<noteq> Inl MaxAttemptsExceeded"
    using res [of MaxAttemptsExceeded "snd (generatePassword e arg)"]
    by (cases "generatePassword e arg") auto
  with res kinds loop show ?thesis by blast
qed

theorem exhaustion_unreachable_witness:
  "fst (generatePassword env_throw_once (opts_length 1)) \<noteq> Inl MaxAttemptsExceeded \<and>
   generatePassword env_throw_once (opts_length 1) = (Inl (RandomFailure ''boom''), 1)"
proof -
  have "generatePassword env_throw_once (opts_length 1) = (Inl (RandomFailure ''boom''), 1)"
    by code_simp
  with exhaustion_unreachable [of env_throw_once "opts_length 1"] show ?thesis by blast
qed

subsection \<open>C10\<close>

text \<open>
  Claim C10: the character \<^verbatim>\<open>|\<close> is in no charset the generator builds, so readable
  removes exactly the five characters \<^verbatim>\<open>O 0 I l 1\<close>, each of which is there: 57
  characters remain without symbols and 78 with them, more than the 56 and 74 that
  calculateCharsetSize of the command-line front end reports.
\<close>

theorem pipe_never_in_charset:
  "(\<forall>s r. CHR ''|'' \<notin> set (build_charset s r)) \<and>
   (\<forall>s. build_charset s True =
      filter (\<lambda>c. c \<notin> {CHR ''O'', CHR ''0'', CHR ''I'', CHR ''l'', CHR ''1''}) (build_charset s False)) \<and>
   (\<forall>s. {CHR ''O'', CHR ''0'', CHR ''I'', CHR ''l'', CHR ''1''} \<subseteq> set (build_charset s False)) \<and>
   (\<forall>s. length (build_charset s True) + 5 = length (build_charset s False)) \<and>
   length (build_charset False True) = 57 \<and>
   length (build_charset True True) = 78 \<and>
   calculateCharsetSize False True = 56 \<and>
   calculateCharsetSize True True = 74 \<and>
   (\<forall>s. calculateCharsetSize s True < int (length (build_charset s True)))"
proof -
  have pipe: "CHR ''|'' \<notin> set (build_charset s r)" for s r
    by (cases s; cases r)
      (simp_all add: build_charset_def letters_def nums_def syms_def confusingChars_def)
  have filt: "build_charset s True =
      filter (\<lambda>c. c \<notin> {CHR ''O'', CHR ''0'', CHR ''I'', CHR ''l'', CHR ''1''}) (build_charset s False)" for s
    by (cases s)
      (simp_all add: build_charset_def letters_def nums_def syms_def confusingChars_def)
  have mem: "{CHR ''O'', CHR ''0'', CHR ''I'', CHR ''l'', CHR ''1''} \<subseteq> set (build_charset s False)" for s
    by (cases s) (simp_all add: build_charset_def letters_def nums_def syms_def)
  have lens: "length (build_charset s True) + 5 = length (build_charset s False)" for s
    by (simp add: length_build_charset)
  have cli: "calculateCharsetSize s True < int (length (build_charset s True))" for s
    by (simp add: calculateCharsetSize_def length_build_charset)
  have "calculateCharsetSize False True = 56" "calculateCharsetSize True True = 74"
    by (simp_all add: calculateCharsetSize_def)
  with pipe filt mem lens cli length_build_charset [of False True] length_build_charset [of True True]
  show ?thesis by simp
qed

end
